theory Spec2Isabelle
  imports Complex_Main "HOL-Library.Word"
begin

section \<open>Exceptions and byte strings\<close>

text \<open>
  Python exceptions are values. Only the exception classes that the modelled functions
  can raise are listed; \<open>OtherError\<close> stands for any other subclass of \<open>Exception\<close>
  (for instance what the session-creation call raises), tagged with a message.
  \<open>FailedToConnect last\<close> is the \<open>Exception\<close> whose message is
  \<open>Failed to connect to Avatario servers. Last error: \<close> followed by the text of
  \<open>last\<close>, the value of \<open>_last_error\<close> (\<open>None\<close> when no error was stored).
\<close>

datatype exn =
    MediaStreamError
  | QueueEmpty
  | QueueFull
  | TypeError
  | ValueError
  | AttributeError
  | JSONDecodeError
  | InvalidKeyError
  | OtherError string
  | FailedToConnect "exn option"

type_synonym byte = "8 word"
type_synonym bytes = "byte list"

section \<open>asyncio.Queue\<close>

text \<open>
  The standard library's \<open>asyncio.Queue(maxsize)\<close>, as far as the plugin uses it:
  a FIFO with \<open>empty\<close>, \<open>full\<close> (never full when \<open>maxsize \<le> 0\<close>), \<open>get_nowait\<close> (raises
  \<open>QueueEmpty\<close>) and \<open>put_nowait\<close> (raises \<open>QueueFull\<close>).
\<close>

record 'a queue =
  maxsize :: nat
  items :: "'a list"

definition Queue :: "nat \<Rightarrow> 'a queue" where
  "Queue n = \<lparr>maxsize = n, items = []\<rparr>"

definition qsize :: "'a queue \<Rightarrow> nat" where
  "qsize q = length (items q)"

definition empty :: "'a queue \<Rightarrow> bool" where
  "empty q = (items q = [])"

definition full :: "'a queue \<Rightarrow> bool" where
  "full q = (if maxsize q \<le> 0 then False else qsize q \<ge> maxsize q)"

definition get_nowait :: "'a queue \<Rightarrow> exn + ('a \<times> 'a queue)" where
  "get_nowait q =
     (case items q of
        [] \<Rightarrow> Inl QueueEmpty
      | x # xs \<Rightarrow> Inr (x, q\<lparr>items := xs\<rparr>))"

definition put_nowait :: "'a \<Rightarrow> 'a queue \<Rightarrow> exn + 'a queue" where
  "put_nowait x q =
     (if full q then Inl QueueFull else Inr (q\<lparr>items := items q @ [x]\<rparr>))"

text \<open>
  The loop \<open>while not queue.empty(): try: queue.get_nowait() except QueueEmpty: break\<close>,
  which both \<open>AvatarioAudioTrack.interrupt\<close> and \<open>AvatarioVideoTrack.add_frame\<close> run.
\<close>

function drain :: "'a queue \<Rightarrow> 'a queue" where
  "drain q =
     (if \<not> empty q then
        (case get_nowait q of
           Inl e \<Rightarrow> q
         | Inr (x, q') \<Rightarrow> drain q')
      else q)"
  by pat_completeness auto
termination
  by (relation "measure (\<lambda>q. length (items q))")
     (auto simp: get_nowait_def split: list.splits)

section \<open>Constants of the plugin\<close>

text \<open>
  \<open>AUDIO_SAMPLES_PER_FRAME = int(0.02 * 48000)\<close>; the product is the float 960.0, so the
  constant is 960. \<open>AUDIO_TIME_BASE_FRACTION\<close> is the fraction 1/48000, kept as a pair.
\<close>

definition AUDIO_SAMPLE_RATE :: int where "AUDIO_SAMPLE_RATE = 48000"
definition AUDIO_CHANNELS :: nat where "AUDIO_CHANNELS = 1"
definition AUDIO_SAMPLE_WIDTH :: nat where "AUDIO_SAMPLE_WIDTH = 2"
definition AUDIO_SAMPLES_PER_FRAME :: nat where "AUDIO_SAMPLES_PER_FRAME = 960"
definition AUDIO_CHUNK_SIZE :: nat where
  "AUDIO_CHUNK_SIZE = AUDIO_SAMPLES_PER_FRAME * AUDIO_CHANNELS * AUDIO_SAMPLE_WIDTH"
definition AUDIO_TIME_BASE_FRACTION :: "int \<times> int" where
  "AUDIO_TIME_BASE_FRACTION = (1, AUDIO_SAMPLE_RATE)"

section \<open>Audio frames\<close>

text \<open>
  An \<open>av.AudioFrame\<close> in packed signed 16-bit format: its presentation timestamp and time
  base (both unset on a new frame), its sample rate (0 on a new frame) and the bytes of
  its single plane.
\<close>

record audio_frame =
  pts :: "int option"
  time_base :: "(int \<times> int) option"
  sample_rate :: int
  payload :: bytes

text \<open>
  \<open>AudioFrame(format="s16", layout=..., samples=n)\<close>: one plane of
  \<open>n * channels * 2\<close> bytes. The constructor does not write the plane: its bytes are
  whatever the allocated memory holds, given here by \<open>mem\<close>, the byte found at each
  offset.
\<close>

definition AudioFrame :: "(nat \<Rightarrow> byte) \<Rightarrow> nat \<Rightarrow> nat \<Rightarrow> audio_frame" where
  "AudioFrame mem channels samples =
     \<lparr>pts = None, time_base = None, sample_rate = 0,
      payload = map mem [0..<samples * channels * 2]\<rparr>"

text \<open>\<open>p.buffer_size\<close> of the plane of a frame, and \<open>bytes(n)\<close>: n zero bytes.\<close>

definition buffer_size :: "audio_frame \<Rightarrow> nat" where
  "buffer_size frame = length (payload frame)"

definition zero_bytes :: "nat \<Rightarrow> bytes" where
  "zero_bytes n = replicate n 0"

text \<open>
  \<open>p.update(input)\<close> copies \<open>input\<close> into the plane; it raises \<open>ValueError\<close> unless
  \<open>input\<close> has exactly \<open>buffer_size\<close> bytes.
\<close>

definition update :: "bytes \<Rightarrow> audio_frame \<Rightarrow> exn + audio_frame" where
  "update input frame =
     (if length input \<noteq> buffer_size frame then Inl ValueError
      else Inr (frame\<lparr>payload := input\<rparr>))"

text \<open>
  \<open>_create_silence_frame\<close>, on memory \<open>mem\<close>: a new frame whose one plane is
  overwritten with zero bytes.
\<close>

definition create_silence_frame :: "(nat \<Rightarrow> byte) \<Rightarrow> exn + audio_frame" where
  "create_silence_frame mem =
     (let frame = AudioFrame mem AUDIO_CHANNELS AUDIO_SAMPLES_PER_FRAME
      in case update (zero_bytes (buffer_size frame)) frame of
           Inl e \<Rightarrow> Inl e
         | Inr frame \<Rightarrow> Inr (frame\<lparr>sample_rate := AUDIO_SAMPLE_RATE\<rparr>))"

text \<open>
  \<open>buildAudioFrames\<close>: an odd chunk gets one zero byte, the bytes are read as 16-bit
  samples and copied into a new mono frame by \<open>AudioFrame.from_ndarray\<close>. The two size
  checks of the source only print a warning.
\<close>

definition buildAudioFrames :: "bytes \<Rightarrow> exn + audio_frame" where
  "buildAudioFrames chunk =
     (let chunk = (if length chunk mod 2 \<noteq> 0 then chunk @ [0] else chunk)
      in Inr \<lparr>pts = None, time_base = None, sample_rate = 0, payload = chunk\<rparr>)"

section \<open>The audio track\<close>

datatype ready_state = Live | Ended

text \<open>
  The fields of \<open>AvatarioAudioTrack\<close> that its methods read or write. \<open>start_time\<close> is
  the wall clock of the first pull, an idealised rational number of seconds.
\<close>

record audio_track =
  readyState :: ready_state
  timestamp :: int
  queue :: "audio_frame queue"
  audio_data_buffer :: bytes
  start_time :: "rat option"

definition AvatarioAudioTrack :: audio_track where
  "AvatarioAudioTrack =
     \<lparr>readyState = Live, timestamp = 0, queue = Queue 10,
      audio_data_buffer = [], start_time = None\<rparr>"

definition interrupt :: "audio_track \<Rightarrow> audio_track" where
  "interrupt t = t\<lparr>queue := drain (queue t), audio_data_buffer := []\<rparr>"

text \<open>\<open>MediaStreamTrack.stop\<close> of the transport library ends the track.\<close>

definition stop :: "audio_track \<Rightarrow> audio_track" where
  "stop t = t\<lparr>readyState := Ended\<rparr>"

definition cleanup :: "audio_track \<Rightarrow> audio_track" where
  "cleanup t = stop (interrupt t)"

text \<open>
  The statements \<open>if queue.full(): queue.get_nowait()\<close> and \<open>queue.put_nowait(frame)\<close>,
  shared by \<open>add_frame\<close> and \<open>add_new_bytes\<close>. An exception of either call leaves the
  queue as that call found it.
\<close>

definition evict_then_put :: "'a \<Rightarrow> 'a queue \<Rightarrow> exn \<times> 'a queue + 'a queue" where
  "evict_then_put x q =
     (case (if full q then
              (case get_nowait q of Inl e \<Rightarrow> Inl (e, q) | Inr (y, q') \<Rightarrow> Inr q')
            else Inr q) of
        Inl r \<Rightarrow> Inl r
      | Inr q1 \<Rightarrow>
          (case put_nowait x q1 of Inl e \<Rightarrow> Inl (e, q1) | Inr q2 \<Rightarrow> Inr q2))"

text \<open>
  \<open>AvatarioAudioTrack.add_frame\<close>: \<open>None\<close> is ignored; the frame's sample rate is set to
  48000 when it differs; \<open>QueueEmpty\<close> and \<open>QueueFull\<close> are swallowed.
\<close>

definition add_frame :: "audio_frame option \<Rightarrow> audio_track \<Rightarrow> audio_track" where
  "add_frame fo t =
     (case fo of
        None \<Rightarrow> t
      | Some frame \<Rightarrow>
          (let frame = (if sample_rate frame \<noteq> AUDIO_SAMPLE_RATE
                        then frame\<lparr>sample_rate := AUDIO_SAMPLE_RATE\<rparr> else frame)
           in case evict_then_put frame (queue t) of
                Inl (e, q) \<Rightarrow> t\<lparr>queue := q\<rparr>
              | Inr q \<Rightarrow> t\<lparr>queue := q\<rparr>))"

section \<open>The video track\<close>

text \<open>
  \<open>AvatarioVideoTrack\<close>, with frames of any type: \<open>add_frame\<close> empties the queue, then
  puts the new frame (\<open>QueueFull\<close> is swallowed).
\<close>

record 'v video_track =
  vqueue :: "'v queue"
  vtimestamp :: int
  vframe_count :: nat

definition AvatarioVideoTrack :: "'v video_track" where
  "AvatarioVideoTrack = \<lparr>vqueue = Queue 2, vtimestamp = 0, vframe_count = 0\<rparr>"

definition video_add_frame :: "'v \<Rightarrow> 'v video_track \<Rightarrow> 'v video_track" where
  "video_add_frame frame t =
     (let q = drain (vqueue t)
      in case put_nowait frame q of
           Inl e \<Rightarrow> t\<lparr>vqueue := q\<rparr>
         | Inr q' \<Rightarrow> t\<lparr>vqueue := q'\<rparr>)"

section \<open>Buffering raw bytes: add_new_bytes\<close>

text \<open>
  The \<open>while\<close> loop of \<open>add_new_bytes\<close>: cut the first \<open>chunk_size\<close> bytes off the
  buffer, build a frame and enqueue it, dropping the oldest frame of a full queue. Any
  exception inside the \<open>try\<close> leaves the loop (\<open>break\<close>).
\<close>

function add_new_bytes_loop :: "audio_track \<Rightarrow> audio_track" where
  "add_new_bytes_loop t =
     (if length (audio_data_buffer t) \<ge> AUDIO_CHUNK_SIZE then
        (let chunk = take AUDIO_CHUNK_SIZE (audio_data_buffer t);
             t1 = t\<lparr>audio_data_buffer := drop AUDIO_CHUNK_SIZE (audio_data_buffer t)\<rparr>
         in case buildAudioFrames chunk of
              Inl e \<Rightarrow> t1
            | Inr audio_frame \<Rightarrow>
                (case evict_then_put audio_frame (queue t1) of
                   Inl (e, q) \<Rightarrow> t1\<lparr>queue := q\<rparr>
                 | Inr q \<Rightarrow> add_new_bytes_loop (t1\<lparr>queue := q\<rparr>)))
      else t)"
  by pat_completeness auto
termination
  by (relation "measure (\<lambda>t. length (audio_data_buffer t))")
     (auto simp: AUDIO_CHUNK_SIZE_def AUDIO_SAMPLES_PER_FRAME_def AUDIO_CHANNELS_def
        AUDIO_SAMPLE_WIDTH_def)

definition add_new_bytes :: "bytes \<Rightarrow> audio_track \<Rightarrow> audio_track" where
  "add_new_bytes audio_data t =
     add_new_bytes_loop (t\<lparr>audio_data_buffer := audio_data_buffer t @ audio_data\<rparr>)"

section \<open>Pulling a frame: recv\<close>

text \<open>
  The body of the \<open>try\<close> of \<open>recv\<close>, called at wall-clock time \<open>now\<close>, with \<open>mem\<close> the
  memory a new frame is allocated in. The pacing sleep \<open>asyncio.sleep(wait)\<close> changes no
  field and is left out. Only \<open>QueueEmpty\<close> is caught around \<open>get_nowait\<close>. A raise is
  paired with the track as the statements before it left it.
\<close>

definition recv_try ::
  "rat \<Rightarrow> (nat \<Rightarrow> byte) \<Rightarrow> audio_track
    \<Rightarrow> exn \<times> audio_track + audio_frame \<times> audio_track" where
  "recv_try now mem t =
     (if readyState t \<noteq> Live then Inl (MediaStreamError, t)
      else
        (let t1 = (case start_time t of
                     None \<Rightarrow> t\<lparr>start_time := Some now, timestamp := 0\<rparr>
                   | Some s \<Rightarrow> t\<lparr>timestamp := timestamp t + int AUDIO_SAMPLES_PER_FRAME\<rparr>);
             pts = timestamp t1;
             time_base = AUDIO_TIME_BASE_FRACTION
         in case (case get_nowait (queue t1) of
                    Inr (frame, q) \<Rightarrow> Inr (frame, q)
                  | Inl e \<Rightarrow>
                      if e = QueueEmpty then
                        (case create_silence_frame mem of
                           Inl e' \<Rightarrow> Inl e'
                         | Inr frame \<Rightarrow> Inr (frame, queue t1))
                      else Inl e) of
              Inl e \<Rightarrow> Inl (e, t1)
            | Inr (frame, q) \<Rightarrow>
                Inr (frame\<lparr>pts := Some pts, time_base := Some time_base,
                            sample_rate := AUDIO_SAMPLE_RATE\<rparr>,
                     t1\<lparr>queue := q\<rparr>)))"

text \<open>
  \<open>recv\<close>: whatever exception the body raises is caught by \<open>except Exception\<close>, and the
  handler returns what \<open>_create_silence_frame()\<close> returns, without timestamp. An
  exception of that call inside the handler is not caught.
\<close>

definition recv ::
  "rat \<Rightarrow> (nat \<Rightarrow> byte) \<Rightarrow> audio_track \<Rightarrow> exn + audio_frame \<times> audio_track" where
  "recv now mem t =
     (case recv_try now mem t of
        Inl (e, t') \<Rightarrow>
          (case create_silence_frame mem of
             Inl e' \<Rightarrow> Inl e'
           | Inr frame \<Rightarrow> Inr (frame, t'))
      | Inr r \<Rightarrow> Inr r)"

text \<open>
  A run of the track: the calls made on it, in the order the event loop runs them. The
  result lists the frames that the \<open>recv\<close> calls returned.
\<close>

datatype track_call =
    Recv rat "nat \<Rightarrow> byte"
  | AddFrame "audio_frame option"
  | AddNewBytes bytes
  | Interrupt
  | Cleanup

fun is_Recv :: "track_call \<Rightarrow> bool" where
  "is_Recv (Recv now mem) = True"
| "is_Recv c = False"

fun run_calls :: "track_call list \<Rightarrow> audio_track \<Rightarrow> audio_frame list" where
  "run_calls [] t = []"
| "run_calls (Recv now mem # cs) t =
     (case recv now mem t of
        Inl e \<Rightarrow> []
      | Inr (frame, t') \<Rightarrow> frame # run_calls cs t')"
| "run_calls (AddFrame fo # cs) t = run_calls cs (add_frame fo t)"
| "run_calls (AddNewBytes b # cs) t = run_calls cs (add_new_bytes b t)"
| "run_calls (Interrupt # cs) t = run_calls cs (interrupt t)"
| "run_calls (Cleanup # cs) t = run_calls cs (cleanup t)"

section \<open>The avatar session\<close>

record video_frame =
  vpts :: "int option"
  image :: bytes

text \<open>
  The dictionary \<open>ipc_data\<close>. Its three queues are made by \<open>asyncio.Queue()\<close>, without
  bound: a \<open>put\<close> never waits and appends, so each is a list. \<open>kill_signal\<close> is the
  \<open>asyncio.Event\<close> of that name: true once set.
\<close>

record ipc_data =
  tts_audio :: "bytes list"
  output_audio :: "audio_frame list"
  output_video :: "video_frame list"
  kill_signal :: bool

datatype task = Pending | Done | Cancelled

text \<open>
  The fields of \<open>AvatarioAvatar\<close>. The last three are not fields of the class: they
  record what a run did, namely how many times \<open>create_conversation\<close> was called, the
  durations passed to \<open>asyncio.sleep\<close>, and whether the two streaming tasks were created.
\<close>

record avatar =
  run :: bool
  stopping :: bool
  ready :: bool
  is_speaking :: bool
  speech_timeout_task :: "task option"
  retry_count :: int
  last_error :: "exn option"
  audio_track :: "audio_track option"
  stream_start_time :: "rat option"
  last_audio_time :: rat
  ipc :: ipc_data
  attempts :: nat
  slept :: "nat list"
  streaming_tasks :: bool

definition AvatarioAvatar :: avatar where
  "AvatarioAvatar =
     \<lparr>run = True, stopping = False, ready = False, is_speaking = False,
      speech_timeout_task = None, retry_count = 3, last_error = None,
      audio_track = None, stream_start_time = None, last_audio_time = 0,
      ipc = \<lparr>tts_audio = [], output_audio = [], output_video = [], kill_signal = False\<rparr>,
      attempts = 0, slept = [], streaming_tasks = False\<rparr>"

subsection \<open>Connecting\<close>

text \<open>
  \<open>_initialize_connection(self, loop)\<close>. The first argument of the model is the argument
  list of the call: \<open>Some loop\<close> when the call passes \<open>loop\<close>, \<open>None\<close> when it passes
  nothing, in which case Python raises \<open>TypeError\<close> (a required positional argument is
  missing) before the body runs. The source's retry is the call
  \<open>self._initialize_connection()\<close>, with no argument.

  \<open>create_conversation\<close> is outside the class: \<open>cc k\<close> is what its call number \<open>k\<close>
  (from 0) does, \<open>None\<close> for a normal return and \<open>Some e\<close> for raising \<open>e\<close>.
  The result pairs what the call raised (\<open>Inl\<close>) or that it returned (\<open>Inr\<close>) with
  the session it leaves.
\<close>

function initialize_connection ::
  "unit option \<Rightarrow> (nat \<Rightarrow> exn option) \<Rightarrow> avatar \<Rightarrow> (exn + unit) \<times> avatar" where
  "initialize_connection None cc a = (Inl TypeError, a)"
| "initialize_connection (Some loop) cc a =
     (if retry_count a = 0 then
        (Inl (FailedToConnect (last_error a)), a)
      else
        (case cc (attempts a) of
           None \<Rightarrow>
             (Inr (), a\<lparr>attempts := Suc (attempts a), ready := True,
                         streaming_tasks := True\<rparr>)
         | Some e \<Rightarrow>
             (let a1 = a\<lparr>attempts := Suc (attempts a), last_error := Some e,
                          retry_count := retry_count a - 1\<rparr>
              in if retry_count a1 > 0 then
                   initialize_connection None cc (a1\<lparr>slept := slept a1 @ [2]\<rparr>)
                 else (Inl e, a1))))"
  by pat_completeness auto
termination
  by (relation "measure (\<lambda>(args, cc, a). case args of None \<Rightarrow> 0 | Some loop \<Rightarrow> 1)")
     auto

text \<open>
  \<open>connect\<close>, called at time \<open>now\<close> and reaching its last line at time \<open>later\<close>. The
  two \<open>start()\<close> calls on the tracks belong to the transport library and are left out.
\<close>

definition connect ::
  "rat \<Rightarrow> rat \<Rightarrow> (nat \<Rightarrow> exn option) \<Rightarrow> avatar \<Rightarrow> (exn + unit) \<times> avatar" where
  "connect now later cc a =
     (let a1 = a\<lparr>audio_track := Some AvatarioAudioTrack\<rparr>;
          a2 = (if stream_start_time a1 = None
                then a1\<lparr>stream_start_time := Some now\<rparr> else a1)
      in case initialize_connection (Some ()) cc a2 of
           (Inl e, a3) \<Rightarrow> (Inl e, a3)
         | (Inr u, a3) \<Rightarrow> (Inr (), a3\<lparr>last_audio_time := later\<rparr>))"

subsection \<open>Sending speech\<close>

text \<open>
  \<open>_send_audio_data\<close>: the loop \<open>for i in range(0, len(data), 6000)\<close> puts the slice
  \<open>data[i:i + 6000]\<close> on the \<open>tts_audio\<close> queue.
\<close>

function send_audio_loop :: "nat \<Rightarrow> bytes \<Rightarrow> avatar \<Rightarrow> avatar" where
  "send_audio_loop i data a =
     (if i < length data then
        (let chunk = take 6000 (drop i data)
         in send_audio_loop (i + 6000) data
              (a\<lparr>ipc := (ipc a)\<lparr>tts_audio := tts_audio (ipc a) @ [chunk]\<rparr>\<rparr>))
      else a)"
  by pat_completeness auto
termination
  by (relation "measure (\<lambda>(i, data, a). length data - i)") auto

definition send_audio_data :: "bytes \<Rightarrow> avatar \<Rightarrow> avatar" where
  "send_audio_data data a = send_audio_loop 0 data a"

text \<open>
  \<open>self.ws\<close>: the class never assigns an attribute \<open>ws\<close> and has no base class that
  would, so reading it raises \<open>AttributeError\<close>.
\<close>

definition ws :: "avatar \<Rightarrow> exn + unit" where
  "ws a = Inl AttributeError"

text \<open>
  \<open>handle_audio_input\<close>. The message of the \<open>else\<close> branch is built from \<open>self.ws\<close>
  before \<open>print\<close> is called, outside any \<open>try\<close>.
\<close>

definition handle_audio_input :: "bytes \<Rightarrow> avatar \<Rightarrow> (exn + unit) \<times> avatar" where
  "handle_audio_input audio_data a =
     (if \<not> run a \<or> stopping a then (Inr (), a)
      else if ready a then
        (let audio_data = (if length audio_data mod 2 \<noteq> 0 then audio_data @ [0]
                           else audio_data)
         in (Inr (), send_audio_data audio_data a))
      else
        (case ws a of
           Inl e \<Rightarrow> (Inl e, a)
         | Inr u \<Rightarrow> (Inr (), a)))"

subsection \<open>Closing\<close>

text \<open>
  \<open>if self._speech_timeout_task and not self._speech_timeout_task.done(): cancel()\<close>
\<close>

definition cancel_speech_timeout :: "avatar \<Rightarrow> avatar" where
  "cancel_speech_timeout a =
     (case speech_timeout_task a of
        Some Pending \<Rightarrow> a\<lparr>speech_timeout_task := Some Cancelled\<rparr>
      | _ \<Rightarrow> a)"

definition cleanup_connections :: "avatar \<Rightarrow> avatar" where
  "cleanup_connections a =
     cancel_speech_timeout (a\<lparr>ready := False, is_speaking := False\<rparr>)"

definition aclose :: "avatar \<Rightarrow> avatar" where
  "aclose a =
     (if stopping a then a
      else
        (let a1 = a\<lparr>stopping := True, run := False\<rparr>;
             a2 = cancel_speech_timeout a1;
             a3 = a2\<lparr>ipc := (ipc a2)\<lparr>kill_signal := True\<rparr>\<rparr>
         in cleanup_connections a3))"

section \<open>The relay loops of api.py\<close>

text \<open>
  The loops are coroutines: while one is suspended at an \<open>await\<close>, other tasks run. A run
  of a loop is driven by the list of what happens around it, in order; its result says
  whether the coroutine has returned by the end of that list or is still suspended.
\<close>

datatype 'a outcome = Returned 'a | Suspended 'a

text \<open>How \<open>asyncio.wait_for(track.recv(), timeout=2)\<close> ends.\<close>

datatype 'f poll = Got 'f | TimedOut

datatype 'f relay_event =
    WaitEnds "'f poll"
  | KillSet

text \<open>
  \<open>get_output_audio\<close>: \<open>relay_audio_wait\<close> is the loop suspended in \<open>wait_for\<close>. When the
  wait ends, a frame is put on \<open>output_audio\<close> (a timeout puts nothing) and the loop
  condition \<open>not kill_signal.is_set()\<close> is tested again.
\<close>

fun relay_audio_wait :: "audio_frame relay_event list \<Rightarrow> ipc_data \<Rightarrow> ipc_data outcome" where
  "relay_audio_wait [] d = Suspended d"
| "relay_audio_wait (KillSet # evs) d = relay_audio_wait evs (d\<lparr>kill_signal := True\<rparr>)"
| "relay_audio_wait (WaitEnds p # evs) d =
     (let d1 = (case p of
                  Got frame \<Rightarrow> d\<lparr>output_audio := output_audio d @ [frame]\<rparr>
                | TimedOut \<Rightarrow> d)
      in if \<not> kill_signal d1 then relay_audio_wait evs d1 else Returned d1)"

definition get_output_audio :: "audio_frame relay_event list \<Rightarrow> ipc_data \<Rightarrow> ipc_data outcome" where
  "get_output_audio evs d =
     (if \<not> kill_signal d then relay_audio_wait evs d else Returned d)"

fun relay_video_wait :: "video_frame relay_event list \<Rightarrow> ipc_data \<Rightarrow> ipc_data outcome" where
  "relay_video_wait [] d = Suspended d"
| "relay_video_wait (KillSet # evs) d = relay_video_wait evs (d\<lparr>kill_signal := True\<rparr>)"
| "relay_video_wait (WaitEnds p # evs) d =
     (let d1 = (case p of
                  Got frame \<Rightarrow> d\<lparr>output_video := output_video d @ [frame]\<rparr>
                | TimedOut \<Rightarrow> d)
      in if \<not> kill_signal d1 then relay_video_wait evs d1 else Returned d1)"

definition get_output_video :: "video_frame relay_event list \<Rightarrow> ipc_data \<Rightarrow> ipc_data outcome" where
  "get_output_video evs d =
     (if \<not> kill_signal d then relay_video_wait evs d else Returned d)"

text \<open>
  \<open>send_tts_audio\<close>: \<open>while True\<close>, take the next chunk of \<open>tts_audio\<close> (waiting while the
  queue is empty) and send it to the meeting. \<open>SenderRuns\<close> lets the loop run one
  iteration if a chunk is there; the other events are other tasks putting a chunk or
  setting the kill signal. The second component of the state lists what was sent.
\<close>

datatype sender_event =
    SenderRuns
  | PutTts bytes
  | SetKill

fun send_tts_audio ::
  "sender_event list \<Rightarrow> ipc_data \<Rightarrow> bytes list \<Rightarrow> (ipc_data \<times> bytes list) outcome" where
  "send_tts_audio [] d sent = Suspended (d, sent)"
| "send_tts_audio (SenderRuns # evs) d sent =
     (case tts_audio d of
        [] \<Rightarrow> send_tts_audio evs d sent
      | audio_data # rest \<Rightarrow>
          send_tts_audio evs (d\<lparr>tts_audio := rest\<rparr>) (sent @ [audio_data]))"
| "send_tts_audio (PutTts chunk # evs) d sent =
     send_tts_audio evs (d\<lparr>tts_audio := tts_audio d @ [chunk]\<rparr>) sent"
| "send_tts_audio (SetKill # evs) d sent =
     send_tts_audio evs (d\<lparr>kill_signal := True\<rparr>) sent"

section \<open>Creating the meeting: meeting_utils.py\<close>

datatype json = JNull | JString string | JNumber int | JBool bool

text \<open>
  What \<open>requests.post\<close> returns: the status code and the body, \<open>None\<close> when the body
  is not JSON (then \<open>response.json()\<close> raises), else the JSON object as a list of pairs.
\<close>

record response =
  status_code :: nat
  body :: "(string \<times> json) list option"

text \<open>\<open>dict.get(key)\<close>: Python's \<open>None\<close> (here \<open>JNull\<close>) for a missing key.\<close>

definition dict_get :: "(string \<times> json) list \<Rightarrow> string \<Rightarrow> json" where
  "dict_get d k = (case map_of d k of None \<Rightarrow> JNull | Some v \<Rightarrow> v)"

record environ =
  VIDEOSDK_API_ENDPOINT :: "string option"
  BACKEND_VIDEOSDK_AUTH_TOKEN :: "string option"
  BACKEND_VIDEOSDK_API_KEY :: "string option"
  BACKEND_VIDEOSDK_SECRET_KEY :: "string option"

record jwt_payload =
  exp :: int
  apikey :: "string option"
  permissions :: "string list"
  version :: "nat option"
  roles :: "string list option"
  roomId :: json

text \<open>
  A token is kept symbolic: the payload and the key that \<open>jwt.encode\<close> signed it with
  (HS256). Without a key \<open>jwt.encode\<close> raises \<open>TypeError\<close>, with an empty key
  \<open>InvalidKeyError\<close>.

  \<open>now\<close> is the time of the call in seconds since the epoch and \<open>utcoffset\<close> the
  offset of the local time zone in seconds. \<open>datetime.now()\<close> is the local wall clock
  without a zone; \<open>jwt.encode\<close> reads it as if it were UTC and keeps whole seconds, so
  the \<open>exp\<close> entry of the token is the local reading plus 600, rounded down.
\<close>

datatype token = JWT jwt_payload string

definition generate_token :: "environ \<Rightarrow> rat \<Rightarrow> int \<Rightarrow> json \<Rightarrow> exn + token" where
  "generate_token env now utcoffset meeting_id =
     (let expiration_in_seconds = 600;
          expiration = now + of_int utcoffset + expiration_in_seconds;
          payload = \<lparr>exp = \<lfloor>expiration\<rfloor>, apikey = BACKEND_VIDEOSDK_API_KEY env,
                     permissions = [''allow_join'', ''allow_mod''],
                     version = None, roles = None, roomId = JNull\<rparr>;
          payload = (if meeting_id \<noteq> JNull
                     then payload\<lparr>version := Some 2, roles := Some [''rtc'']\<rparr>
                     else payload);
          payload = payload\<lparr>roomId := meeting_id\<rparr>
      in case BACKEND_VIDEOSDK_SECRET_KEY env of
           None \<Rightarrow> Inl TypeError
         | Some key \<Rightarrow> if key = [] then Inl InvalidKeyError else Inr (JWT payload key))"

datatype meeting = RoomId json | MeetingInfo json token token

text \<open>
  \<open>create_meeting(auth_token)\<close>. \<open>posted\<close> is what \<open>requests.post\<close> did: raise, or return
  a response. The two tokens are generated at times \<open>now\<close> and \<open>now'\<close>, in a time zone
  of offset \<open>utcoffset\<close>. The arguments
  of \<open>MeetingInfo\<close> are the entries \<open>id\<close>, \<open>token\<close> and \<open>backend_token\<close> of the returned
  dictionary.
\<close>

definition create_meeting ::
  "environ \<Rightarrow> rat \<Rightarrow> rat \<Rightarrow> int \<Rightarrow> string option \<Rightarrow> exn + response
    \<Rightarrow> exn + meeting" where
  "create_meeting env now now' utcoffset auth_token posted =
     (let generate_for_backend = (if auth_token \<noteq> None then False else True)
      in case posted of
           Inl e \<Rightarrow> Inl e
         | Inr response \<Rightarrow>
             (case body response of
                None \<Rightarrow> Inl JSONDecodeError
              | Some response_data \<Rightarrow>
                  (let room_id = dict_get response_data ''roomId''
                   in if \<not> generate_for_backend then Inr (RoomId room_id)
                      else
                        (case generate_token env now utcoffset room_id of
                           Inl e \<Rightarrow> Inl e
                         | Inr token \<Rightarrow>
                             (case generate_token env now' utcoffset room_id of
                                Inl e \<Rightarrow> Inl e
                              | Inr backend_token \<Rightarrow>
                                  Inr (MeetingInfo room_id token backend_token))))))"

section \<open>Sequences of pushes\<close>

text \<open>
  \<open>add_frames\<close> and \<open>video_add_frames\<close> call \<open>add_frame\<close> once for each frame of a list,
  in order, with nothing taken from the queue in between. \<open>set_rate\<close> is the frame as
  the audio \<open>add_frame\<close> leaves it, \<open>last_n n xs\<close> the last \<open>n\<close> elements of \<open>xs\<close> (all of
  them when there are fewer).
\<close>

fun add_frames :: "audio_frame list \<Rightarrow> audio_track \<Rightarrow> audio_track" where
  "add_frames [] t = t"
| "add_frames (f # fs) t = add_frames fs (add_frame (Some f) t)"

fun video_add_frames :: "'v list \<Rightarrow> 'v video_track \<Rightarrow> 'v video_track" where
  "video_add_frames [] t = t"
| "video_add_frames (f # fs) t = video_add_frames fs (video_add_frame f t)"

definition set_rate :: "audio_frame \<Rightarrow> audio_frame" where
  "set_rate f = f\<lparr>sample_rate := AUDIO_SAMPLE_RATE\<rparr>"

definition last_n :: "nat \<Rightarrow> 'a list \<Rightarrow> 'a list" where
  "last_n n xs = drop (length xs - n) xs"

text \<open>
  Frames to run the definitions on: \<open>tone k\<close> is a frame of two bytes at 44100 Hz, a
  different frame for each \<open>k\<close> below 256.
\<close>

definition tone :: "nat \<Rightarrow> audio_frame" where
  "tone k = \<lparr>pts = None, time_base = None, sample_rate = 44100, payload = [of_nat k, 0]\<rparr>"

text \<open>
  \<open>next_pts\<close> is the timestamp the next pull of the track will stamp: 0 before the first
  pull, one frame of samples past the last one afterwards.
\<close>

definition next_pts :: "audio_track \<Rightarrow> int" where
  "next_pts t =
     (case start_time t of
        None \<Rightarrow> 0
      | Some s \<Rightarrow> timestamp t + int AUDIO_SAMPLES_PER_FRAME)"

section \<open>Chunks, as the specification words them\<close>

text \<open>
  The specification's description of the speech chunker: a byte string of odd length
  gets one zero byte (\<open>pad_even\<close>), and a byte string is cut into consecutive chunks of
  \<open>n\<close> bytes, the last one possibly shorter (\<open>split_chunks\<close>).
\<close>

definition pad_even :: "bytes \<Rightarrow> bytes" where
  "pad_even b = (if odd (length b) then b @ [0] else b)"

function split_chunks :: "nat \<Rightarrow> 'a list \<Rightarrow> 'a list list" where
  "split_chunks n xs =
     (if n = 0 \<or> xs = [] then [] else take n xs # split_chunks n (drop n xs))"
  by pat_completeness auto
termination
  by (relation "measure (\<lambda>(n, xs). length xs)") auto

text \<open>
  The description of the byte buffering of the audio track: the complete leading chunks
  of \<open>n\<close> bytes (\<open>full_chunks\<close>), what is left after them (\<open>remainder\<close>), and the frame
  that \<open>buildAudioFrames\<close> makes of a chunk of even length (\<open>frame_of\<close>).
\<close>

function full_chunks :: "nat \<Rightarrow> 'a list \<Rightarrow> 'a list list" where
  "full_chunks n xs =
     (if n = 0 \<or> length xs < n then [] else take n xs # full_chunks n (drop n xs))"
  by pat_completeness auto
termination
  by (relation "measure (\<lambda>(n, xs). length xs)") auto

definition remainder :: "nat \<Rightarrow> 'a list \<Rightarrow> 'a list" where
  "remainder n xs = drop (n * (length xs div n)) xs"

definition frame_of :: "bytes \<Rightarrow> audio_frame" where
  "frame_of chunk = \<lparr>pts = None, time_base = None, sample_rate = 0, payload = chunk\<rparr>"


section \<open>Facts about queues\<close>

declare drain.simps [simp del]

lemma drain_result: "items (drain q) = [] \<and> maxsize (drain q) = maxsize q"
proof (induction q rule: drain.induct)
  case (1 q)
  show ?case
  proof (cases "items q")
    case Nil
    then show ?thesis by (simp add: drain.simps [of q] empty_def)
  next
    case (Cons x xs)
    then have g: "get_nowait q = Inr (x, q\<lparr>items := xs\<rparr>)" and ne: "\<not> empty q"
      by (simp_all add: get_nowait_def empty_def)
    from "1.IH" [OF ne g refl] show ?thesis
      by (simp add: drain.simps [of q] ne g)
  qed
qed

lemma drain_empty: "items q = [] \<Longrightarrow> drain q = q"
  by (simp add: drain.simps [of q] empty_def)

lemma last_n_rev: "last_n n xs = rev (take n (rev xs))"
  by (simp add: last_n_def rev_take)

lemma last_n_append: "last_n n (last_n n xs @ ys) = last_n n (xs @ ys)"
  by (simp add: last_n_rev min_def)

lemma last_n_snoc:
  "length xs \<le> n \<Longrightarrow> 0 < n \<Longrightarrow>
   (if length xs = n then tl xs else xs) @ [x] = last_n n (xs @ [x])"
  by (cases xs) (auto simp: last_n_def drop_Suc)

lemma length_last_n: "length (last_n n xs) \<le> n"
  by (simp add: last_n_def)

lemma last_n_all: "length xs \<le> n \<Longrightarrow> last_n n xs = xs"
  by (simp add: last_n_def)

lemma last_n_long: "n \<le> length ys \<Longrightarrow> last_n n (xs @ ys) = drop (length ys - n) ys"
  by (simp add: last_n_def)

lemma evict_then_put_ok:
  assumes "0 < maxsize q" "qsize q \<le> maxsize q"
  shows "evict_then_put x q =
    Inr (q\<lparr>items := last_n (maxsize q) (items q @ [x])\<rparr>)"
proof -
  have "evict_then_put x q =
    Inr (q\<lparr>items := (if qsize q = maxsize q then tl (items q) else items q) @ [x]\<rparr>)"
    using assms
    by (cases "items q")
       (auto simp: evict_then_put_def full_def qsize_def get_nowait_def put_nowait_def)
  then show ?thesis
    using assms last_n_snoc [of "items q" "maxsize q" x] by (simp add: qsize_def)
qed

lemma add_frame_queue:
  assumes "0 < maxsize (queue t)" "qsize (queue t) \<le> maxsize (queue t)"
  shows "queue (add_frame (Some f) t) =
     (queue t)\<lparr>items := last_n (maxsize (queue t)) (items (queue t) @ [set_rate f])\<rparr>"
proof -
  have "(if sample_rate f \<noteq> AUDIO_SAMPLE_RATE then f\<lparr>sample_rate := AUDIO_SAMPLE_RATE\<rparr> else f)
      = set_rate f"
    by (simp add: set_rate_def)
  then show ?thesis
    using evict_then_put_ok [OF assms, of "set_rate f"]
    by (simp add: add_frame_def)
qed

lemma add_frames_queue:
  assumes "0 < maxsize (queue t)" "qsize (queue t) \<le> maxsize (queue t)"
  shows "queue (add_frames fs t) =
     (queue t)\<lparr>items := last_n (maxsize (queue t)) (items (queue t) @ map set_rate fs)\<rparr>"
  using assms
proof (induction fs arbitrary: t)
  case Nil
  then show ?case by (simp add: last_n_all qsize_def)
next
  case (Cons f fs)
  let ?t = "add_frame (Some f) t"
  have q: "queue ?t = (queue t)\<lparr>items := last_n (maxsize (queue t)) (items (queue t) @ [set_rate f])\<rparr>"
    by (rule add_frame_queue [OF Cons.prems])
  have m: "0 < maxsize (queue ?t)" and l: "qsize (queue ?t) \<le> maxsize (queue ?t)"
    using Cons.prems by (simp_all add: q qsize_def length_last_n)
  have "last_n (maxsize (queue t)) (last_n (maxsize (queue t)) (items (queue t) @ [set_rate f]) @ map set_rate fs)
     = last_n (maxsize (queue t)) (items (queue t) @ set_rate f # map set_rate fs)"
    using last_n_append [of "maxsize (queue t)" "items (queue t) @ [set_rate f]" "map set_rate fs"]
    by simp
  then show ?case
    using Cons.IH [OF m l] by (simp add: q)
qed

lemma video_add_frame_queue:
  "vqueue (video_add_frame f t) = (vqueue t)\<lparr>items := [f]\<rparr>"
proof -
  have "drain (vqueue t) = (vqueue t)\<lparr>items := []\<rparr>"
    using drain_result [of "vqueue t"] by (cases "drain (vqueue t)"; cases "vqueue t") simp
  then show ?thesis
    by (simp add: video_add_frame_def put_nowait_def full_def qsize_def Let_def)
qed

lemma video_add_frames_queue:
  "fs \<noteq> [] \<Longrightarrow> vqueue (video_add_frames fs t) = (vqueue t)\<lparr>items := [last fs]\<rparr>"
proof (induction fs arbitrary: t)
  case Nil
  then show ?case by simp
next
  case (Cons f fs)
  show ?case
  proof (cases fs)
    case Nil
    then show ?thesis by (simp add: video_add_frame_queue)
  next
    case (Cons g gs)
    then have "fs \<noteq> []" by simp
    from Cons.IH [OF this, of "video_add_frame f t"] show ?thesis
      using \<open>fs \<noteq> []\<close> by (simp add: video_add_frame_queue)
  qed
qed


section \<open>Bounded queues\<close>

text \<open>
  Claim C3, as the code has it. On the audio track (capacity 10), more than 10 pushes
  with no pop in between leave exactly the last 10 pushed frames, in their order, each
  with the sample rate that \<open>add_frame\<close> gives it; the queue is then full, one more
  push drops exactly its oldest frame, and after any number of pushes the length is at most
  the capacity. On the video track (capacity 2) \<open>add_frame\<close> empties the queue before it
  inserts: after one or more pushes the queue holds exactly the last pushed frame, and
  its length stays within the capacity.
\<close>

theorem bounded_queues_after_pushes:
  assumes "maxsize (queue t) = 10" and "qsize (queue t) \<le> 10" and "10 < length fs"
    and "maxsize (vqueue v) = 2" and "vs \<noteq> []"
  shows "items (queue (add_frames fs t)) = map set_rate (drop (length fs - 10) fs)
    \<and> full (queue (add_frames fs t))
    \<and> items (queue (add_frame (Some f) (add_frames fs t)))
        = tl (items (queue (add_frames fs t))) @ [set_rate f]
    \<and> qsize (queue (add_frames gs t)) \<le> maxsize (queue (add_frames gs t))
    \<and> items (vqueue (video_add_frames vs v)) = [last vs]
    \<and> qsize (vqueue (video_add_frames vs v)) \<le> maxsize (vqueue (video_add_frames vs v))"
proof -
  have m: "0 < maxsize (queue t)" and l: "qsize (queue t) \<le> maxsize (queue t)"
    using assms by simp_all
  have q: "queue (add_frames hs t) =
      (queue t)\<lparr>items := last_n 10 (items (queue t) @ map set_rate hs)\<rparr>" for hs
    using add_frames_queue [OF m l, of hs] assms(1) by simp
  have c1: "items (queue (add_frames fs t)) = map set_rate (drop (length fs - 10) fs)"
    using assms(3) last_n_long [of 10 "map set_rate fs" "items (queue t)"]
    by (simp add: q drop_map)
  have len: "length (items (queue (add_frames fs t))) = 10"
    using assms(3) by (simp add: c1)
  have c2: "full (queue (add_frames fs t))"
    using len by (simp add: full_def qsize_def q assms(1))
  have m': "0 < maxsize (queue (add_frames fs t))"
    and l': "qsize (queue (add_frames fs t)) \<le> maxsize (queue (add_frames fs t))"
    using len by (simp_all add: q assms(1) qsize_def length_last_n)
  have "maxsize (queue (add_frames fs t)) = 10"
    by (simp add: q assms(1))
  then have c3: "items (queue (add_frame (Some f) (add_frames fs t)))
      = tl (items (queue (add_frames fs t))) @ [set_rate f]"
    using add_frame_queue [OF m' l', of f] len
      last_n_snoc [of "items (queue (add_frames fs t))" 10 "set_rate f"]
    by simp
  have c4: "qsize (queue (add_frames gs t)) \<le> maxsize (queue (add_frames gs t))"
    by (simp add: q assms(1) qsize_def length_last_n)
  have c5: "items (vqueue (video_add_frames vs v)) = [last vs]"
    using video_add_frames_queue [OF assms(5), of v] by simp
  have c6: "qsize (vqueue (video_add_frames vs v)) \<le> maxsize (vqueue (video_add_frames vs v))"
    using video_add_frames_queue [OF assms(5), of v] assms(4) by (simp add: qsize_def)
  from c1 c2 c3 c4 c5 c6 show ?thesis by blast
qed

theorem bounded_queues_after_pushes_witness:
  "maxsize (queue AvatarioAudioTrack) = 10 \<and> qsize (queue AvatarioAudioTrack) \<le> 10
   \<and> 10 < length 
       [tone 0, tone 1, tone 2, tone 3, tone 4, tone 5, tone 6, tone 7, tone 8, tone 9, tone 10]
   \<and> maxsize (vqueue (AvatarioVideoTrack :: nat video_track)) = 2 \<and> [5, 6, 7 :: nat] \<noteq> []
   \<and> items (queue (add_frames 
       [tone 0, tone 1, tone 2, tone 3, tone 4, tone 5, tone 6, tone 7, tone 8, tone 9, tone 10] AvatarioAudioTrack))
       = map set_rate [tone 1, tone 2, tone 3, tone 4, tone 5, tone 6, tone 7, tone 8, tone 9,
           tone 10]
   \<and> items (queue (add_frame (Some (tone 11)) (add_frames 
       [tone 0, tone 1, tone 2, tone 3, tone 4, tone 5, tone 6, tone 7, tone 8, tone 9, tone 10] AvatarioAudioTrack)))
       = map set_rate [tone 2, tone 3, tone 4, tone 5, tone 6, tone 7, tone 8, tone 9, tone 10,
           tone 11]
   \<and> items (vqueue (video_add_frames [5, 6, 7 :: nat] AvatarioVideoTrack)) = [7]"
proof -
  have h: "maxsize (queue AvatarioAudioTrack) = 10" "qsize (queue AvatarioAudioTrack) \<le> 10"
    "10 < length 
       [tone 0, tone 1, tone 2, tone 3, tone 4, tone 5, tone 6, tone 7, tone 8, tone 9, tone 10]"
    "maxsize (vqueue (AvatarioVideoTrack :: nat video_track)) = 2" "[5, 6, 7 :: nat] \<noteq> []"
    by (simp_all add: AvatarioAudioTrack_def AvatarioVideoTrack_def Queue_def qsize_def)
  show ?thesis
    using h bounded_queues_after_pushes [OF h, of "tone 11" "[]"]
    by simp
qed

text \<open>
  Three pushes on the video queue of capacity 2 do not leave the last two frames.
\<close>

theorem video_queue_counterexample:
  "\<not> (items (vqueue (video_add_frames [1, 2, 3 :: nat] AvatarioVideoTrack))
       = drop (length [1, 2, 3 :: nat] - maxsize (vqueue (AvatarioVideoTrack :: nat video_track)))
           [1, 2, 3])"
  using video_add_frames_queue [of "[1, 2, 3 :: nat]" AvatarioVideoTrack]
  by (simp add: AvatarioVideoTrack_def Queue_def)


section \<open>The audio pacer\<close>

declare add_new_bytes_loop.simps [simp del]

lemma add_new_bytes_loop_clock:
  "readyState (add_new_bytes_loop t) = readyState t
   \<and> timestamp (add_new_bytes_loop t) = timestamp t
   \<and> start_time (add_new_bytes_loop t) = start_time t"
proof (induction t rule: add_new_bytes_loop.induct)
  case (1 t)
  then show ?case
    by (subst (1 2 3) add_new_bytes_loop.simps)
       (auto simp: Let_def split: sum.splits prod.splits)
qed

lemma other_calls_clock:
  "readyState (add_frame fo t) = readyState t \<and> next_pts (add_frame fo t) = next_pts t"
  "readyState (add_new_bytes b t) = readyState t \<and> next_pts (add_new_bytes b t) = next_pts t"
  "readyState (interrupt t) = readyState t \<and> next_pts (interrupt t) = next_pts t"
proof -
  show "readyState (add_frame fo t) = readyState t \<and> next_pts (add_frame fo t) = next_pts t"
    by (auto simp: add_frame_def next_pts_def Let_def split: option.splits sum.splits prod.splits)
  show "readyState (add_new_bytes b t) = readyState t \<and> next_pts (add_new_bytes b t) = next_pts t"
    using add_new_bytes_loop_clock [of "t\<lparr>audio_data_buffer := audio_data_buffer t @ b\<rparr>"]
    by (simp add: add_new_bytes_def next_pts_def split: option.splits)
  show "readyState (interrupt t) = readyState t \<and> next_pts (interrupt t) = next_pts t"
    by (simp add: interrupt_def next_pts_def split: option.splits)
qed

lemma create_silence_frame_result:
  "create_silence_frame mem =
     Inr \<lparr>pts = None, time_base = None, sample_rate = AUDIO_SAMPLE_RATE,
          payload = replicate 1920 0\<rparr>"
  by (simp add: create_silence_frame_def AudioFrame_def update_def buffer_size_def
      zero_bytes_def AUDIO_SAMPLES_PER_FRAME_def AUDIO_CHANNELS_def Let_def)

lemma recv_live:
  assumes "readyState t = Live"
  shows "\<exists>frame t'. recv now mem t = Inr (frame, t') \<and> pts frame = Some (next_pts t)
     \<and> readyState t' = Live \<and> next_pts t' = next_pts t + 960"
  using assms
  by (cases "items (queue t)"; cases "start_time t")
     (simp_all add: recv_def recv_try_def get_nowait_def next_pts_def Let_def
        create_silence_frame_result AUDIO_SAMPLES_PER_FRAME_def)

lemma run_calls_pts:
  assumes "Cleanup \<notin> set cs" and "readyState t = Live"
  shows "map pts (run_calls cs t)
     = map (\<lambda>k. Some (next_pts t + 960 * int k)) [0..<length (filter is_Recv cs)]"
  using assms
proof (induction cs arbitrary: t)
  case Nil
  then show ?case by simp
next
  case (Cons c cs)
  then have rest: "Cleanup \<notin> set cs" by simp
  show ?case
  proof (cases c)
    case (Recv now mem)
    from recv_live [OF Cons.prems(2), of now mem] obtain frame t'
      where r: "recv now mem t = Inr (frame, t')" and p: "pts frame = Some (next_pts t)"
        and l: "readyState t' = Live" and n: "next_pts t' = next_pts t + 960"
      by blast
    have "map (\<lambda>k. Some (next_pts t + 960 * int k)) [0..<Suc (length (filter is_Recv cs))]
        = Some (next_pts t)
          # map (\<lambda>k. Some (next_pts t' + 960 * int k)) [0..<length (filter is_Recv cs)]"
      by (simp only: map_upt_Suc) (simp add: n algebra_simps)
    then show ?thesis
      using Cons.IH [OF rest l] by (simp add: Recv r p del: upt_Suc)
  next
    case (AddFrame fo)
    then show ?thesis
      using Cons.IH [OF rest, of "add_frame fo t"] Cons.prems(2) other_calls_clock(1) [of fo t]
      by simp
  next
    case (AddNewBytes b)
    then show ?thesis
      using Cons.IH [OF rest, of "add_new_bytes b t"] Cons.prems(2) other_calls_clock(2) [of b t]
      by simp
  next
    case Interrupt
    then show ?thesis
      using Cons.IH [OF rest, of "interrupt t"] Cons.prems(2) other_calls_clock(3) [of t]
      by simp
  next
    case Cleanup
    then show ?thesis using Cons.prems(1) by simp
  qed
qed

text \<open>
  Claim C1, as the code has it. On a new track that stays live (no \<open>cleanup\<close>, which
  stops it), whatever other calls come between the pulls and whether a pull finds a
  frame in the queue or makes a silence frame, the frames returned by K pulls carry
  the timestamps 0, 960, ..., 960 (K - 1).
\<close>

theorem recv_pts_sequence:
  assumes "Cleanup \<notin> set cs"
  shows "map pts (run_calls cs AvatarioAudioTrack)
     = map (\<lambda>k. Some (960 * int k)) [0..<length (filter is_Recv cs)]"
proof -
  have "readyState AvatarioAudioTrack = Live" and "next_pts AvatarioAudioTrack = 0"
    by (simp_all add: AvatarioAudioTrack_def next_pts_def)
  then show ?thesis
    using run_calls_pts [OF assms, of AvatarioAudioTrack] by simp
qed

theorem recv_pts_sequence_witness:
  "Cleanup \<notin> set [Recv 0 (\<lambda>i. 255), AddFrame (Some (tone 1)),
       Recv (1 / 50) (\<lambda>i. 255), AddNewBytes [1, 2, 3], Interrupt,
       Recv (1 / 25) (\<lambda>i. 255)]
   \<and> map pts (run_calls [Recv 0 (\<lambda>i. 255), AddFrame (Some (tone 1)),
       Recv (1 / 50) (\<lambda>i. 255), AddNewBytes [1, 2, 3], Interrupt,
       Recv (1 / 25) (\<lambda>i. 255)] AvatarioAudioTrack)
     = [Some 0, Some 960, Some 1920]"
proof -
  have h: "Cleanup \<notin> set [Recv 0 (\<lambda>i. 255), AddFrame (Some (tone 1)), Recv (1 / 50) (\<lambda>i. 255),
      AddNewBytes [1, 2, 3], Interrupt, Recv (1 / 25) (\<lambda>i. 255)]"
    by simp
  show ?thesis
    using h recv_pts_sequence [OF h] by simp
qed

text \<open>
  After \<open>cleanup\<close> has stopped the track, a pull returns a silence frame that carries
  no timestamp: the second of two pulls is not stamped 960.
\<close>

theorem recv_pts_counterexample:
  "\<not> (map pts (run_calls [Recv 0 (\<lambda>i. 255), Cleanup, Recv (1 / 50) (\<lambda>i. 255)]
          AvatarioAudioTrack)
       = map (\<lambda>k. Some (960 * int k)) [0..<2])"
proof -
  have d: "drain \<lparr>maxsize = 10, items = [] :: audio_frame list\<rparr> = \<lparr>maxsize = 10, items = []\<rparr>"
    by (simp add: drain_empty)
  have u: "[0..<2] = [0, 1]"
    by (simp add: upt_rec)
  show ?thesis
    by (simp add: u recv_def recv_try_def cleanup_def stop_def interrupt_def get_nowait_def
        AvatarioAudioTrack_def Queue_def d create_silence_frame_result Let_def
        del: upt_Suc)
qed

text \<open>
  Claim C2. A pull never raises: on any track, at any time and whatever the memory of a
  new frame holds, it returns a frame. When the queue is empty at the pull, the payload
  of that frame is 1920 zero bytes, which is \<open>samples_per_frame * channels * 2\<close>.
\<close>

theorem recv_always_returns:
  "(\<exists>frame t'. recv now mem t = Inr (frame, t'))
   \<and> (empty (queue t) \<longrightarrow>
        (\<exists>frame t'. recv now mem t = Inr (frame, t')
           \<and> payload frame = replicate 1920 0
           \<and> length (payload frame) = AUDIO_SAMPLES_PER_FRAME * AUDIO_CHANNELS * 2))"
  by (cases "items (queue t)"; cases "start_time t"; cases "readyState t")
     (simp_all add: recv_def recv_try_def get_nowait_def Let_def empty_def
        create_silence_frame_result AUDIO_SAMPLES_PER_FRAME_def AUDIO_CHANNELS_def)

theorem recv_always_returns_witness:
  "empty (queue AvatarioAudioTrack)
   \<and> payload (AudioFrame (\<lambda>i. 255) AUDIO_CHANNELS AUDIO_SAMPLES_PER_FRAME)
       = replicate 1920 255
   \<and> (\<exists>frame t'. recv 0 (\<lambda>i. 255) AvatarioAudioTrack = Inr (frame, t')
        \<and> payload frame = replicate 1920 0 \<and> length (payload frame) = 1920)"
proof -
  have h: "empty (queue AvatarioAudioTrack)"
    by (simp add: empty_def AvatarioAudioTrack_def Queue_def)
  have g: "payload (AudioFrame (\<lambda>i. 255) AUDIO_CHANNELS AUDIO_SAMPLES_PER_FRAME)
       = replicate 1920 255"
    by (simp add: AudioFrame_def AUDIO_SAMPLES_PER_FRAME_def AUDIO_CHANNELS_def
        map_replicate_const)
  show ?thesis
    using h g recv_always_returns [of 0 "\<lambda>i. 255" AvatarioAudioTrack]
    by (simp add: AUDIO_SAMPLES_PER_FRAME_def AUDIO_CHANNELS_def)
qed

section \<open>The session\<close>

text \<open>
  Claim C8. \<open>aclose\<close> is idempotent: a second call returns the session that the first
  call left. A first call on a session that is not yet stopping leaves the kill signal
  set, \<open>run\<close> and \<open>ready\<close> cleared and \<open>_stopping\<close> set.
\<close>

theorem aclose_idempotent:
  "aclose (aclose a) = aclose a
   \<and> (\<not> stopping a \<longrightarrow>
        kill_signal (ipc (aclose a)) \<and> \<not> run (aclose a) \<and> \<not> ready (aclose a)
        \<and> stopping (aclose a))"
proof -
  have s: "stopping (cancel_speech_timeout b) = stopping b"
    "run (cancel_speech_timeout b) = run b"
    "ready (cancel_speech_timeout b) = ready b"
    "ipc (cancel_speech_timeout b) = ipc b" for b
    by (simp_all add: cancel_speech_timeout_def split: option.splits task.splits)
  have "stopping (aclose a)"
    by (simp add: aclose_def cleanup_connections_def Let_def s)
  then have "aclose (aclose a) = aclose a"
    by (simp add: aclose_def [of "aclose a"])
  moreover have "\<not> stopping a \<Longrightarrow>
      kill_signal (ipc (aclose a)) \<and> \<not> run (aclose a) \<and> \<not> ready (aclose a)"
    by (simp add: aclose_def cleanup_connections_def Let_def s)
  ultimately show ?thesis
    using \<open>stopping (aclose a)\<close> by simp
qed

theorem aclose_idempotent_witness:
  "\<not> stopping (AvatarioAvatar\<lparr>ready := True, speech_timeout_task := Some Pending\<rparr>)
   \<and> aclose (aclose (AvatarioAvatar\<lparr>ready := True, speech_timeout_task := Some Pending\<rparr>))
       = aclose (AvatarioAvatar\<lparr>ready := True, speech_timeout_task := Some Pending\<rparr>)
   \<and> kill_signal (ipc (aclose (AvatarioAvatar\<lparr>ready := True,
         speech_timeout_task := Some Pending\<rparr>)))
   \<and> \<not> ready (aclose (AvatarioAvatar\<lparr>ready := True, speech_timeout_task := Some Pending\<rparr>))
   \<and> speech_timeout_task (aclose (AvatarioAvatar\<lparr>ready := True,
         speech_timeout_task := Some Pending\<rparr>)) = Some Cancelled"
proof -
  have h: "\<not> stopping (AvatarioAvatar\<lparr>ready := True, speech_timeout_task := Some Pending\<rparr>)"
    by (simp add: AvatarioAvatar_def)
  have c: "speech_timeout_task (aclose (AvatarioAvatar\<lparr>ready := True,
         speech_timeout_task := Some Pending\<rparr>)) = Some Cancelled"
    by (simp add: AvatarioAvatar_def aclose_def cleanup_connections_def
        cancel_speech_timeout_def Let_def)
  show ?thesis
    using h c
      aclose_idempotent [of "AvatarioAvatar\<lparr>ready := True, speech_timeout_task := Some Pending\<rparr>"]
    by simp
qed

text \<open>
  Claim C4 on the code. When the first negotiation fails, the session sleeps 2 seconds
  and then the retry call, made without the \<open>loop\<close> argument, raises \<open>TypeError\<close>:
  \<open>connect\<close> fails after one attempt, whether the second attempt would have succeeded
  or every attempt would have failed.
\<close>

theorem connect_retry_raises_TypeError:
  "fst (connect 0 1 (\<lambda>k. if k = 0 then Some (OtherError ''refused'') else None)
          AvatarioAvatar) = Inl TypeError
   \<and> attempts (snd (connect 0 1 (\<lambda>k. if k = 0 then Some (OtherError ''refused'') else None)
          AvatarioAvatar)) = 1
   \<and> slept (snd (connect 0 1 (\<lambda>k. if k = 0 then Some (OtherError ''refused'') else None)
          AvatarioAvatar)) = [2]
   \<and> \<not> ready (snd (connect 0 1 (\<lambda>k. if k = 0 then Some (OtherError ''refused'') else None)
          AvatarioAvatar))
   \<and> fst (connect 0 1 (\<lambda>k. Some (OtherError ''refused'')) AvatarioAvatar) = Inl TypeError
   \<and> attempts (snd (connect 0 1 (\<lambda>k. Some (OtherError ''refused'')) AvatarioAvatar)) = 1"
  by (simp add: connect_def AvatarioAvatar_def Let_def)

text \<open>
  Claim C5 on the code. On a new session, which is running and not yet ready,
  \<open>handle_audio_input\<close> raises \<open>AttributeError\<close> while it builds its log message; it
  puts nothing on the queue.
\<close>

theorem handle_audio_input_not_ready_raises:
  "handle_audio_input [1, 2] AvatarioAvatar = (Inl AttributeError, AvatarioAvatar)"
  by (simp add: handle_audio_input_def AvatarioAvatar_def ws_def)

theorem handle_audio_input_not_ready_raises_witness:
  "run AvatarioAvatar \<and> \<not> stopping AvatarioAvatar \<and> \<not> ready AvatarioAvatar
   \<and> fst (handle_audio_input [1, 2] AvatarioAvatar) = Inl AttributeError
   \<and> tts_audio (ipc (snd (handle_audio_input [1, 2] AvatarioAvatar))) = []"
  using handle_audio_input_not_ready_raises by (simp add: AvatarioAvatar_def)

section \<open>The kill signal\<close>

lemma kill_signal_stays_set:
  "kill_signal (ipc a) \<Longrightarrow> kill_signal (ipc (aclose a))"
  by (simp add: aclose_def cleanup_connections_def cancel_speech_timeout_def Let_def
      split: option.splits task.splits)

lemma relay_audio_returns_after_kill:
  "kill_signal d \<Longrightarrow> get_output_audio evs d = Returned d"
  "\<exists>d'. relay_audio_wait (KillSet # WaitEnds p # evs) d = Returned d'"
  by (simp_all add: get_output_audio_def Let_def split: poll.splits)

lemma relay_video_returns_after_kill:
  "kill_signal d \<Longrightarrow> get_output_video evs d = Returned d"
  "\<exists>d'. relay_video_wait (KillSet # WaitEnds p # evs) d = Returned d'"
  by (simp_all add: get_output_video_def Let_def split: poll.splits)

text \<open>
  Claim C7 on the code. \<open>send_tts_audio\<close> never returns, whatever the other tasks do:
  with the kill signal set and two chunks on the queue it sends both and waits for
  more.
\<close>

theorem send_tts_audio_never_returns:
  "send_tts_audio evs d sent \<noteq> Returned r
   \<and> send_tts_audio [SetKill, SenderRuns, SenderRuns]
        \<lparr>tts_audio = [ [1], [2] ], output_audio = [], output_video = [], kill_signal = False\<rparr> []
      = Suspended
          (\<lparr>tts_audio = [], output_audio = [], output_video = [], kill_signal = True\<rparr>,
           [ [1], [2] ])"
proof -
  have "send_tts_audio evs d sent \<noteq> Returned r"
  proof (induction evs d sent rule: send_tts_audio.induct)
    case (2 evs d sent)
    then show ?case by (cases "tts_audio d") simp_all
  qed simp_all
  then show ?thesis by simp
qed

section \<open>Creating the meeting\<close>

text \<open>
  Claim C9 on the code. \<open>create_meeting\<close> never looks at the status: from a 401 response
  whose JSON body has no \<open>roomId\<close> it returns credentials, with no room and two tokens
  signed for no room.
\<close>

theorem create_meeting_ignores_status:
  "create_meeting
     \<lparr>VIDEOSDK_API_ENDPOINT = Some ''https://api.videosdk.live/v2'',
      BACKEND_VIDEOSDK_AUTH_TOKEN = Some ''expired'',
      BACKEND_VIDEOSDK_API_KEY = Some ''key'',
      BACKEND_VIDEOSDK_SECRET_KEY = Some ''secret''\<rparr>
     0 0 0 None
     (Inr \<lparr>status_code = 401, body = Some [(''error'', JString ''Unauthorized'')]\<rparr>)
   = Inr (MeetingInfo JNull
       (JWT \<lparr>exp = 600, apikey = Some ''key'', permissions = [''allow_join'', ''allow_mod''],
             version = None, roles = None, roomId = JNull\<rparr> ''secret'')
       (JWT \<lparr>exp = 600, apikey = Some ''key'', permissions = [''allow_join'', ''allow_mod''],
             version = None, roles = None, roomId = JNull\<rparr> ''secret''))"
  by (simp add: create_meeting_def generate_token_def dict_get_def Let_def)


section \<open>Chunking\<close>

declare split_chunks.simps [simp del] full_chunks.simps [simp del]
  send_audio_loop.simps [simp del]

lemma split_chunks_Nil: "split_chunks n [] = []"
  by (simp add: split_chunks.simps [of n "[]"])

lemma split_chunks_Cons:
  "0 < n \<Longrightarrow> xs \<noteq> [] \<Longrightarrow> split_chunks n xs = take n xs # split_chunks n (drop n xs)"
  by (simp add: split_chunks.simps [of n xs])

lemma concat_split_chunks: "0 < n \<Longrightarrow> concat (split_chunks n xs) = xs"
proof (induction n xs rule: split_chunks.induct)
  case (1 n xs)
  then show ?case
    by (cases "xs = []") (simp_all add: split_chunks_Nil split_chunks_Cons)
qed

lemma split_chunks_eq_Nil: "0 < n \<Longrightarrow> split_chunks n xs = [] \<longleftrightarrow> xs = []"
  by (cases "xs = []") (simp_all add: split_chunks_Nil split_chunks_Cons)

lemma split_chunks_nth:
  "0 < n \<Longrightarrow> k < length (split_chunks n xs) \<Longrightarrow>
   split_chunks n xs ! k = take n (drop (n * k) xs)"
proof (induction n xs arbitrary: k rule: split_chunks.induct)
  case (1 n xs)
  show ?case
  proof (cases "xs = []")
    case True
    with "1.prems" show ?thesis by (simp add: split_chunks_Nil)
  next
    case False
    note sc = split_chunks_Cons [OF "1.prems"(1) False]
    show ?thesis
    proof (cases k)
      case 0
      then show ?thesis by (simp add: sc)
    next
      case (Suc j)
      with "1.prems" have j: "j < length (split_chunks n (drop n xs))"
        by (simp add: sc)
      have "split_chunks n (drop n xs) ! j = take n (drop (n * j) (drop n xs))"
        using "1.IH" [OF _ "1.prems"(1) j] "1.prems"(1) False by simp
      then show ?thesis
        by (simp add: sc Suc add.commute)
    qed
  qed
qed

lemma split_chunks_butlast:
  "0 < n \<Longrightarrow> c \<in> set (butlast (split_chunks n xs)) \<Longrightarrow> length c = n"
proof (induction n xs rule: split_chunks.induct)
  case (1 n xs)
  show ?case
  proof (cases "xs = []")
    case True
    with "1.prems" show ?thesis by (simp add: split_chunks_Nil)
  next
    case False
    note sc = split_chunks_Cons [OF "1.prems"(1) False]
    show ?thesis
    proof (cases "drop n xs = []")
      case True
      with "1.prems" show ?thesis by (simp add: sc split_chunks_Nil)
    next
      case d: False
      then have "split_chunks n (drop n xs) \<noteq> []"
        using "1.prems"(1) by (simp add: split_chunks_eq_Nil)
      with "1.prems"(2) have "c = take n xs \<or> c \<in> set (butlast (split_chunks n (drop n xs)))"
        by (simp add: sc)
      then show ?thesis
      proof
        assume "c = take n xs"
        then show ?thesis using d by simp
      next
        assume "c \<in> set (butlast (split_chunks n (drop n xs)))"
        then show ?thesis
          using "1.IH" [OF _ "1.prems"(1)] "1.prems"(1) False by simp
      qed
    qed
  qed
qed

lemma split_chunks_last:
  "0 < n \<Longrightarrow> xs \<noteq> [] \<Longrightarrow>
   0 < length (last (split_chunks n xs)) \<and> length (last (split_chunks n xs)) \<le> n"
proof (induction n xs rule: split_chunks.induct)
  case (1 n xs)
  note sc = split_chunks_Cons [OF "1.prems"]
  show ?case
  proof (cases "drop n xs = []")
    case True
    with "1.prems" show ?thesis by (simp add: sc split_chunks_Nil)
  next
    case False
    then have "split_chunks n (drop n xs) \<noteq> []"
      using "1.prems"(1) by (simp add: split_chunks_eq_Nil)
    then show ?thesis
      using "1.IH" [OF _ "1.prems"(1) False] "1.prems" by (simp add: sc)
  qed
qed

lemma send_audio_loop_chunks:
  "send_audio_loop i data a =
     a\<lparr>ipc := (ipc a)\<lparr>tts_audio := tts_audio (ipc a) @ split_chunks 6000 (drop i data)\<rparr>\<rparr>"
proof (induction i data a rule: send_audio_loop.induct)
  case (1 i data a)
  show ?case
  proof (cases "i < length data")
    case True
    then have ne: "drop i data \<noteq> []" by simp
    have d: "drop (6000 + i) data = drop (i + 6000) data"
      by (simp add: add.commute)
    show ?thesis
      using "1.IH" [OF True refl]
      by (subst send_audio_loop.simps)
         (simp add: True Let_def split_chunks_Cons [OF _ ne] d)
  next
    case False
    then show ?thesis
      by (subst send_audio_loop.simps) (simp add: split_chunks_Nil)
  qed
qed


lemma pad_even_mod: "(if length b mod 2 \<noteq> 0 then b @ [0] else b) = pad_even b"
  by (simp add: pad_even_def odd_iff_mod_2_eq_one)

text \<open>
  Claim C6. On a session that is running, not stopping and ready, \<open>handle_audio_input\<close>
  returns normally and appends to the \<open>tts_audio\<close> queue, in order, the chunks of the
  input padded to even length: their concatenation is the padded input, every chunk
  but the last has exactly 6000 bytes, the last has between 1 and 6000, and chunk \<open>k\<close>
  starts at byte \<open>6000 * k\<close>.
\<close>

theorem handle_audio_input_chunks:
  assumes "run a" and "\<not> stopping a" and "ready a"
  shows "handle_audio_input b a
      = (Inr (), a\<lparr>ipc := (ipc a)\<lparr>tts_audio :=
           tts_audio (ipc a) @ split_chunks 6000 (pad_even b)\<rparr>\<rparr>)
    \<and> pad_even b = (if odd (length b) then b @ [0] else b)
    \<and> concat (split_chunks 6000 (pad_even b)) = pad_even b
    \<and> (\<forall>c \<in> set (butlast (split_chunks 6000 (pad_even b))). length c = 6000)
    \<and> (b \<noteq> [] \<longrightarrow> 0 < length (last (split_chunks 6000 (pad_even b)))
          \<and> length (last (split_chunks 6000 (pad_even b))) \<le> 6000)
    \<and> (\<forall>k < length (split_chunks 6000 (pad_even b)).
          split_chunks 6000 (pad_even b) ! k = take 6000 (drop (6000 * k) (pad_even b)))"
proof -
  have c1: "handle_audio_input b a
      = (Inr (), a\<lparr>ipc := (ipc a)\<lparr>tts_audio :=
           tts_audio (ipc a) @ split_chunks 6000 (pad_even b)\<rparr>\<rparr>)"
  proof -
    have "handle_audio_input b a = (Inr (), send_audio_data (pad_even b) a)"
      unfolding handle_audio_input_def Let_def pad_even_mod using assms by simp
    then show ?thesis
      using send_audio_loop_chunks [of 0 "pad_even b" a] by (simp add: send_audio_data_def)
  qed
  have c2: "pad_even b = (if odd (length b) then b @ [0] else b)"
    by (simp add: pad_even_def)
  have c3: "concat (split_chunks 6000 (pad_even b)) = pad_even b"
    by (simp add: concat_split_chunks)
  have c4: "\<forall>c \<in> set (butlast (split_chunks 6000 (pad_even b))). length c = 6000"
    using split_chunks_butlast [of 6000 _ "pad_even b"] by simp
  have "b \<noteq> [] \<Longrightarrow> pad_even b \<noteq> []"
    by (simp add: pad_even_def)
  then have c5: "b \<noteq> [] \<longrightarrow> 0 < length (last (split_chunks 6000 (pad_even b)))
          \<and> length (last (split_chunks 6000 (pad_even b))) \<le> 6000"
    using split_chunks_last [of 6000 "pad_even b"] by simp
  have c6: "\<forall>k < length (split_chunks 6000 (pad_even b)).
          split_chunks 6000 (pad_even b) ! k = take 6000 (drop (6000 * k) (pad_even b))"
    using split_chunks_nth [of 6000 _ "pad_even b"] by simp
  from c1 c2 c3 c4 c5 c6 show ?thesis by blast
qed

theorem handle_audio_input_chunks_witness:
  "run (AvatarioAvatar\<lparr>ready := True\<rparr>) \<and> \<not> stopping (AvatarioAvatar\<lparr>ready := True\<rparr>)
   \<and> ready (AvatarioAvatar\<lparr>ready := True\<rparr>)
   \<and> fst (handle_audio_input (replicate 6001 1) (AvatarioAvatar\<lparr>ready := True\<rparr>)) = Inr ()
   \<and> tts_audio (ipc (snd (handle_audio_input (replicate 6001 1)
        (AvatarioAvatar\<lparr>ready := True\<rparr>)))) = [replicate 6000 1, [1, 0]]"
proof -
  have h: "run (AvatarioAvatar\<lparr>ready := True\<rparr>)" "\<not> stopping (AvatarioAvatar\<lparr>ready := True\<rparr>)"
    "ready (AvatarioAvatar\<lparr>ready := True\<rparr>)"
    by (simp_all add: AvatarioAvatar_def)
  have r: "replicate 6001 (1 :: byte) = replicate 6000 1 @ [1]"
  proof -
    have "(6001 :: nat) = Suc 6000" by simp
    then show ?thesis by (simp only: replicate_Suc replicate_append_same)
  qed
  have p: "pad_even (replicate 6001 1) = replicate 6000 1 @ [1, 0]"
    by (simp add: pad_even_def r)
  have s: "split_chunks 6000 (replicate 6000 (1 :: byte) @ [1, 0]) = [replicate 6000 1, [1, 0]]"
    by (simp add: split_chunks_Cons split_chunks_Nil)
  have e: "tts_audio (ipc AvatarioAvatar) = []"
    by (simp add: AvatarioAvatar_def)
  show ?thesis
    using h handle_audio_input_chunks [OF h, of "replicate 6001 1"]
    by (simp add: p s e)
qed

section \<open>Buffering raw bytes\<close>

lemma full_chunks_short: "length xs < n \<Longrightarrow> full_chunks n xs = []"
  by (simp add: full_chunks.simps [of n xs])

lemma full_chunks_Cons:
  "0 < n \<Longrightarrow> n \<le> length xs \<Longrightarrow> full_chunks n xs = take n xs # full_chunks n (drop n xs)"
  by (simp add: full_chunks.simps [of n xs])

lemma remainder_short: "length xs < n \<Longrightarrow> remainder n xs = xs"
  by (simp add: remainder_def)

lemma remainder_step:
  assumes "0 < n" and "n \<le> length xs"
  shows "remainder n xs = remainder n (drop n xs)"
proof -
  have "length xs div n = Suc ((length xs - n) div n)"
    using assms by (simp add: le_div_geq)
  then show ?thesis
    by (simp add: remainder_def add.commute)
qed

lemma length_remainder: "0 < n \<Longrightarrow> length (remainder n xs) < n"
  by (simp add: remainder_def minus_mult_div_eq_mod)

lemma concat_full_chunks: "0 < n \<Longrightarrow> concat (full_chunks n xs) @ remainder n xs = xs"
proof (induction n xs rule: full_chunks.induct)
  case (1 n xs)
  show ?case
  proof (cases "length xs < n")
    case True
    then show ?thesis by (simp add: full_chunks_short remainder_short)
  next
    case False
    then have ge: "n \<le> length xs" by simp
    have "concat (full_chunks n (drop n xs)) @ remainder n (drop n xs) = drop n xs"
      using "1.IH" "1.prems" False by simp
    then show ?thesis
      using full_chunks_Cons [OF "1.prems" ge] remainder_step [OF "1.prems" ge] by simp
  qed
qed

lemma length_of_full_chunks: "c \<in> set (full_chunks n xs) \<Longrightarrow> length c = n"
proof (induction n xs rule: full_chunks.induct)
  case (1 n xs)
  show ?case
  proof (cases "n = 0 \<or> length xs < n")
    case True
    with "1.prems" show ?thesis by (simp add: full_chunks.simps [of n xs])
  next
    case False
    then have "c = take n xs \<or> c \<in> set (full_chunks n (drop n xs))"
      using "1.prems" by (simp add: full_chunks.simps [of n xs])
    then show ?thesis
      using "1.IH" [OF False] False by auto
  qed
qed

lemma count_full_chunks: "0 < n \<Longrightarrow> length (full_chunks n xs) = length xs div n"
proof (induction n xs rule: full_chunks.induct)
  case (1 n xs)
  show ?case
  proof (cases "length xs < n")
    case True
    then show ?thesis by (simp add: full_chunks_short)
  next
    case False
    then have ge: "n \<le> length xs" by simp
    have "length (full_chunks n (drop n xs)) = (length xs - n) div n"
      using "1.IH" "1.prems" False by simp
    then show ?thesis
      using full_chunks_Cons [OF "1.prems" ge] "1.prems" ge by (simp add: le_div_geq)
  qed
qed


lemma buildAudioFrames_even:
  "even (length chunk) \<Longrightarrow> buildAudioFrames chunk = Inr (frame_of chunk)"
  by (simp add: buildAudioFrames_def frame_of_def odd_iff_mod_2_eq_one)

lemma AUDIO_CHUNK_SIZE_1920: "AUDIO_CHUNK_SIZE = 1920"
  by (simp add: AUDIO_CHUNK_SIZE_def AUDIO_SAMPLES_PER_FRAME_def AUDIO_CHANNELS_def
      AUDIO_SAMPLE_WIDTH_def)

lemma add_new_bytes_loop_result:
  "0 < maxsize (queue t) \<Longrightarrow> qsize (queue t) \<le> maxsize (queue t) \<Longrightarrow>
   add_new_bytes_loop t =
     t\<lparr>audio_data_buffer := remainder 1920 (audio_data_buffer t),
       queue := (queue t)\<lparr>items := last_n (maxsize (queue t))
         (items (queue t) @ map frame_of (full_chunks 1920 (audio_data_buffer t)))\<rparr>\<rparr>"
proof (induction t rule: add_new_bytes_loop.induct)
  case (1 t)
  let ?buf = "audio_data_buffer t"
  let ?m = "maxsize (queue t)"
  show ?case
  proof (cases "AUDIO_CHUNK_SIZE \<le> length ?buf")
    case False
    then have short: "length ?buf < 1920"
      by (simp add: AUDIO_CHUNK_SIZE_1920)
    have "last_n ?m (items (queue t)) = items (queue t)"
      using "1.prems"(2) by (simp add: last_n_all qsize_def)
    then show ?thesis
      using False
      by (subst add_new_bytes_loop.simps)
         (simp add: full_chunks_short [OF short] remainder_short [OF short])
  next
    case True
    then have ge: "1920 \<le> length ?buf"
      by (simp add: AUDIO_CHUNK_SIZE_1920)
    let ?chunk = "take AUDIO_CHUNK_SIZE ?buf"
    let ?t1 = "t\<lparr>audio_data_buffer := drop AUDIO_CHUNK_SIZE ?buf\<rparr>"
    let ?q = "(queue t)\<lparr>items := last_n ?m (items (queue t) @ [frame_of ?chunk])\<rparr>"
    have b: "buildAudioFrames ?chunk = Inr (frame_of ?chunk)"
      using ge by (simp add: buildAudioFrames_even AUDIO_CHUNK_SIZE_1920)
    have e: "evict_then_put (frame_of ?chunk) (queue ?t1) = Inr ?q"
      using evict_then_put_ok [OF "1.prems", of "frame_of ?chunk"] by simp
    have m: "0 < maxsize (queue (?t1\<lparr>queue := ?q\<rparr>))"
      and l: "qsize (queue (?t1\<lparr>queue := ?q\<rparr>)) \<le> maxsize (queue (?t1\<lparr>queue := ?q\<rparr>))"
      using "1.prems"(1) by (simp_all add: qsize_def length_last_n)
    note ih = "1.IH" [OF True refl refl b e m l]
    have step: "add_new_bytes_loop t = add_new_bytes_loop (?t1\<lparr>queue := ?q\<rparr>)"
      using True b e
      by (subst add_new_bytes_loop.simps) (simp add: Let_def)
    have items: "last_n ?m (last_n ?m (items (queue t) @ [frame_of ?chunk])
          @ map frame_of (full_chunks 1920 (drop 1920 ?buf)))
        = last_n ?m (items (queue t) @ map frame_of (full_chunks 1920 ?buf))"
      using last_n_append [of ?m "items (queue t) @ [frame_of ?chunk]"
          "map frame_of (full_chunks 1920 (drop 1920 ?buf))"]
        full_chunks_Cons [of 1920 ?buf] ge
      by (simp add: AUDIO_CHUNK_SIZE_1920)
    have rest: "remainder 1920 (drop 1920 ?buf) = remainder 1920 ?buf"
      using remainder_step [of 1920 ?buf] ge by simp
    show ?thesis
      using ih items rest by (simp add: step AUDIO_CHUNK_SIZE_1920)
  qed
qed

text \<open>
  Claim C10. Let the queue of the track have its capacity of 10 and hold at most 10
  frames. After \<open>add_new_bytes\<close>, fewer than 1920 bytes stay in the buffer; the buffered
  bytes followed by the new ones are the complete leading chunks followed by what stays
  in the buffer; each chunk has 1920 bytes and there are as many as fit; and the queue
  holds its former frames followed by the frames built from the chunks, in order, cut
  to the last 10 by dropping the oldest. The queue still holds at most 10 frames.
\<close>

theorem add_new_bytes_buffer:
  assumes "maxsize (queue t) = 10" and "qsize (queue t) \<le> 10"
  shows "length (audio_data_buffer (add_new_bytes audio_data t)) < 1920
    \<and> concat (full_chunks 1920 (audio_data_buffer t @ audio_data))
        @ audio_data_buffer (add_new_bytes audio_data t) = audio_data_buffer t @ audio_data
    \<and> (\<forall>c \<in> set (full_chunks 1920 (audio_data_buffer t @ audio_data)). length c = 1920)
    \<and> length (full_chunks 1920 (audio_data_buffer t @ audio_data))
        = length (audio_data_buffer t @ audio_data) div 1920
    \<and> items (queue (add_new_bytes audio_data t))
        = last_n 10 (items (queue t)
            @ map frame_of (full_chunks 1920 (audio_data_buffer t @ audio_data)))
    \<and> maxsize (queue (add_new_bytes audio_data t)) = 10
    \<and> qsize (queue (add_new_bytes audio_data t)) \<le> 10"
proof -
  let ?t = "t\<lparr>audio_data_buffer := audio_data_buffer t @ audio_data\<rparr>"
  have m: "0 < maxsize (queue ?t)" and l: "qsize (queue ?t) \<le> maxsize (queue ?t)"
    using assms by simp_all
  have r: "add_new_bytes audio_data t =
     t\<lparr>audio_data_buffer := remainder 1920 (audio_data_buffer t @ audio_data),
       queue := (queue t)\<lparr>items := last_n 10
         (items (queue t) @ map frame_of (full_chunks 1920 (audio_data_buffer t @ audio_data)))\<rparr>\<rparr>"
    using add_new_bytes_loop_result [OF m l] assms(1) by (simp add: add_new_bytes_def)
  have c1: "length (audio_data_buffer (add_new_bytes audio_data t)) < 1920"
    by (simp add: r length_remainder)
  have c2: "concat (full_chunks 1920 (audio_data_buffer t @ audio_data))
        @ audio_data_buffer (add_new_bytes audio_data t) = audio_data_buffer t @ audio_data"
    using concat_full_chunks [of 1920 "audio_data_buffer t @ audio_data"] by (simp add: r)
  have c3: "\<forall>c \<in> set (full_chunks 1920 (audio_data_buffer t @ audio_data)). length c = 1920"
    using length_of_full_chunks by blast
  have c4: "length (full_chunks 1920 (audio_data_buffer t @ audio_data))
        = length (audio_data_buffer t @ audio_data) div 1920"
    by (rule count_full_chunks) simp
  have c5: "items (queue (add_new_bytes audio_data t))
        = last_n 10 (items (queue t)
            @ map frame_of (full_chunks 1920 (audio_data_buffer t @ audio_data)))"
    by (simp add: r)
  have c6: "maxsize (queue (add_new_bytes audio_data t)) = 10"
    by (simp add: r assms(1))
  have c7: "qsize (queue (add_new_bytes audio_data t)) \<le> 10"
    by (simp add: r qsize_def length_last_n)
  from c1 c2 c3 c4 c5 c6 c7 show ?thesis by blast
qed

theorem add_new_bytes_buffer_witness:
  "maxsize (queue AvatarioAudioTrack) = 10 \<and> qsize (queue AvatarioAudioTrack) \<le> 10
   \<and> audio_data_buffer (add_new_bytes (replicate 1920 7 @ [8, 9]) AvatarioAudioTrack) = [8, 9]
   \<and> items (queue (add_new_bytes (replicate 1920 7 @ [8, 9]) AvatarioAudioTrack))
       = [frame_of (replicate 1920 7)]"
proof -
  have h: "maxsize (queue AvatarioAudioTrack) = 10" "qsize (queue AvatarioAudioTrack) \<le> 10"
    by (simp_all add: AvatarioAudioTrack_def Queue_def qsize_def)
  have e: "audio_data_buffer AvatarioAudioTrack = []" "items (queue AvatarioAudioTrack) = []"
    by (simp_all add: AvatarioAudioTrack_def Queue_def)
  have f: "full_chunks 1920 (replicate 1920 (7 :: byte) @ [8, 9]) = [replicate 1920 7]"
    by (simp add: full_chunks_Cons full_chunks_short)
  show ?thesis
    using h add_new_bytes_buffer [OF h, of "replicate 1920 7 @ [8, 9]"]
    by (simp add: e f last_n_def)
qed

end
